theory Spec2Isabelle
  imports Complex_Main "HOL-Library.Sublist" "HOL-Library.Multiset" "HOL-Library.List_Lexorder"
begin

section \<open>The JavaScript \<open>Map\<close> behind \<open>queryCache\<close>\<close>

text \<open>
  Both route files keep their cache in \<open>const queryCache = new Map()\<close>. A JavaScript
  \<open>Map\<close> iterates in insertion order, \<open>set\<close> on a key already present replaces the
  value and keeps the key's position, \<open>set\<close> on a new key appends it, and
  \<open>delete\<close> of a missing key does nothing. The model is an association list in
  insertion order.
\<close>

type_synonym ('k, 'v) js_map = "('k \<times> 'v) list"

primrec Map_get :: "('k, 'v) js_map \<Rightarrow> 'k \<Rightarrow> 'v option" where
  "Map_get [] k = None"
| "Map_get (p # ps) k = (if fst p = k then Some (snd p) else Map_get ps k)"

primrec Map_set :: "'k \<Rightarrow> 'v \<Rightarrow> ('k, 'v) js_map \<Rightarrow> ('k, 'v) js_map" where
  "Map_set k v [] = [(k, v)]"
| "Map_set k v (p # ps) = (if fst p = k then (k, v) # ps else p # Map_set k v ps)"

definition Map_delete :: "'k \<Rightarrow> ('k, 'v) js_map \<Rightarrow> ('k, 'v) js_map" where
  "Map_delete k m = filter (\<lambda>p. fst p \<noteq> k) m"

definition Map_size :: "('k, 'v) js_map \<Rightarrow> nat" where
  "Map_size m = length m"

definition Map_keys :: "('k, 'v) js_map \<Rightarrow> 'k list" where
  "Map_keys m = map fst m"

text \<open>\<open>queryCache.keys().next().value\<close>: the oldest key, \<open>undefined\<close> on an empty map.\<close>

definition Map_first_key :: "('k, 'v) js_map \<Rightarrow> 'k option" where
  "Map_first_key m = (case m of [] \<Rightarrow> None | p # _ \<Rightarrow> Some (fst p))"

section \<open>The query cache\<close>

text \<open>
  An entry is the object \<open>{ data, timestamp: Date.now() }\<close>. \<open>Date.now()\<close> is an
  integer number of milliseconds; each operation takes the clock reading \<open>now\<close> as
  an argument. The cached \<open>data\<close> is opaque (always a response object, hence truthy);
  \<open>getCachedQuery\<close> returning \<open>null\<close> is \<open>None\<close>.
\<close>

record 'v cache_entry =
  data :: 'v
  timestamp :: int

type_synonym 'v query_cache = "(string, 'v cache_entry) js_map"

text \<open>
  \<^verbatim>\<open>
  function getCachedQuery(key) {
    const cached = queryCache.get(key);
    if (cached && Date.now() - cached.timestamp < CACHE_TTL) {
      return cached.data;
    }
    queryCache.delete(key);
    return null;
  }
  \<close>
  The function is the same in both files except for \<open>CACHE_TTL\<close>, which is a parameter
  here. The result is the returned value together with the cache afterwards.
\<close>

definition getCachedQuery ::
  "int \<Rightarrow> int \<Rightarrow> string \<Rightarrow> 'v query_cache \<Rightarrow> 'v option \<times> 'v query_cache" where
  "getCachedQuery CACHE_TTL now key queryCache =
     (case Map_get queryCache key of
        Some cached \<Rightarrow>
          if now - timestamp cached < CACHE_TTL then (Some (data cached), queryCache)
          else (None, Map_delete key queryCache)
      | None \<Rightarrow> (None, Map_delete key queryCache))"

text \<open>
  \<^verbatim>\<open>
  function setCachedQuery(key, data) {
    queryCache.set(key, { data, timestamp: Date.now() });
    if (queryCache.size > 100) {
      const firstKey = queryCache.keys().next().value;
      queryCache.delete(firstKey);
    }
  }
  \<close>
  The bound is 100 in the papers routes and 200 in the interactions routes.
\<close>

definition setCachedQuery ::
  "nat \<Rightarrow> int \<Rightarrow> string \<Rightarrow> 'v \<Rightarrow> 'v query_cache \<Rightarrow> 'v query_cache" where
  "setCachedQuery max_size now key d queryCache =
     (let stored = Map_set key \<lparr>data = d, timestamp = now\<rparr> queryCache in
      if Map_size stored > max_size then
        (case Map_first_key stored of
           Some firstKey \<Rightarrow> Map_delete firstKey stored
         | None \<Rightarrow> stored)
      else stored)"

text \<open>The constants of the two files.\<close>

definition papers_CACHE_TTL :: int where "papers_CACHE_TTL = 60000"
definition papers_max_size :: nat where "papers_max_size = 100"
definition interactions_CACHE_TTL :: int where "interactions_CACHE_TTL = 300000"
definition interactions_max_size :: nat where "interactions_max_size = 200"

definition papers_getCachedQuery ::
  "int \<Rightarrow> string \<Rightarrow> 'v query_cache \<Rightarrow> 'v option \<times> 'v query_cache" where
  "papers_getCachedQuery = getCachedQuery papers_CACHE_TTL"

definition papers_setCachedQuery ::
  "int \<Rightarrow> string \<Rightarrow> 'v \<Rightarrow> 'v query_cache \<Rightarrow> 'v query_cache" where
  "papers_setCachedQuery = setCachedQuery papers_max_size"

definition interactions_getCachedQuery ::
  "int \<Rightarrow> string \<Rightarrow> 'v query_cache \<Rightarrow> 'v option \<times> 'v query_cache" where
  "interactions_getCachedQuery = getCachedQuery interactions_CACHE_TTL"

definition interactions_setCachedQuery ::
  "int \<Rightarrow> string \<Rightarrow> 'v \<Rightarrow> 'v query_cache \<Rightarrow> 'v query_cache" where
  "interactions_setCachedQuery = setCachedQuery interactions_max_size"


subsection \<open>Sequences of cache calls\<close>

text \<open>
  A run of the program calls \<open>setCachedQuery\<close> and \<open>getCachedQuery\<close> in some order, each
  at its own clock reading. \<open>run\<close> threads the cache through such a sequence;
  \<open>puts_of\<close> lists the entries the \<open>Put\<close> calls store, in call order, and
  \<open>get_times\<close> the clock readings of the \<open>Get\<close> calls.
\<close>

datatype 'v cache_op = Put string 'v int | Get string int

fun apply_op :: "int \<Rightarrow> nat \<Rightarrow> 'v cache_op \<Rightarrow> 'v query_cache \<Rightarrow> 'v query_cache" where
  "apply_op ttl cap (Put k v t) c = setCachedQuery cap t k v c"
| "apply_op ttl cap (Get k t) c = snd (getCachedQuery ttl t k c)"

definition run :: "int \<Rightarrow> nat \<Rightarrow> 'v cache_op list \<Rightarrow> 'v query_cache \<Rightarrow> 'v query_cache" where
  "run ttl cap ops c = foldl (\<lambda>c op. apply_op ttl cap op c) c ops"

fun puts_of :: "'v cache_op list \<Rightarrow> (string \<times> 'v cache_entry) list" where
  "puts_of [] = []"
| "puts_of (Put k v t # ops) = (k, \<lparr>data = v, timestamp = t\<rparr>) # puts_of ops"
| "puts_of (Get k t # ops) = puts_of ops"

fun get_times :: "'v cache_op list \<Rightarrow> int list" where
  "get_times [] = []"
| "get_times (Put k v t # ops) = get_times ops"
| "get_times (Get k t # ops) = t # get_times ops"

section \<open>Cache keys: \<open>JSON.stringify\<close> of the parameter object\<close>

text \<open>
  \<open>getCacheKey(params)\<close> is \<open>JSON.stringify(params)\<close>. The parameter objects of the routes
  are flat object literals whose property values are numbers (\<open>parseInt\<close> results, which
  may be \<open>NaN\<close>), strings, \<open>true\<close> and \<open>undefined\<close> (a query parameter that was not
  sent). An object is the list of its properties in insertion order, which is the order
  \<open>JSON.stringify\<close> enumerates them in (no property name of the routes is an integer
  index). Numbers are integers here: the one fractional parameter, \<open>minRating\<close>, and
  integers too large to print without an exponent are outside the model. Strings are lists
  of 8-bit code units.
\<close>

datatype js_value = JUndefined | JNaN | JNum int | JBool bool | JStr string

type_synonym js_object = "(string \<times> js_value) list"

definition digit_char :: "nat \<Rightarrow> char" where
  "digit_char d = ''0123456789'' ! d"

fun nat_to_string :: "nat \<Rightarrow> string" where
  "nat_to_string n =
     (if n < 10 then [digit_char n] else nat_to_string (n div 10) @ [digit_char (n mod 10)])"

declare nat_to_string.simps [simp del]

text \<open>\<open>String(i)\<close> for an integer \<open>i\<close>, as a template literal and \<open>JSON.stringify\<close> print it.\<close>

definition Number_toString :: "int \<Rightarrow> string" where
  "Number_toString i =
     (if i < 0 then CHR ''-'' # nat_to_string (nat (- i)) else nat_to_string (nat i))"

definition hex_digit :: "nat \<Rightarrow> char" where
  "hex_digit d = ''0123456789abcdef'' ! d"

text \<open>
  \<open>QuoteJSONString\<close> of ECMA-262: the two-character escapes for backspace, tab, line feed,
  form feed, carriage return, the double quote (0x22) and the backslash (0x5C),
  \<open>\u00XX\<close> for the other control characters, every other code unit as it is.
\<close>

definition QuoteJSONChar :: "char \<Rightarrow> string" where
  "QuoteJSONChar c =
     (if c = CHR 0x08 then [CHR 0x5C, CHR ''b'']
      else if c = CHR 0x09 then [CHR 0x5C, CHR ''t'']
      else if c = CHR 0x0A then [CHR 0x5C, CHR ''n'']
      else if c = CHR 0x0C then [CHR 0x5C, CHR ''f'']
      else if c = CHR 0x0D then [CHR 0x5C, CHR ''r'']
      else if c = CHR 0x22 then [CHR 0x5C, CHR 0x22]
      else if c = CHR 0x5C then [CHR 0x5C, CHR 0x5C]
      else if (of_char c :: nat) < 32 then
        [CHR 0x5C, CHR ''u'', CHR ''0'', CHR ''0'',
         hex_digit (of_char c div 16), hex_digit (of_char c mod 16)]
      else [c])"

definition QuoteJSONString :: "string \<Rightarrow> string" where
  "QuoteJSONString s = CHR 0x22 # concat (map QuoteJSONChar s) @ [CHR 0x22]"

text \<open>A property whose value is \<open>undefined\<close> is left out; \<open>NaN\<close> prints as \<open>null\<close>.\<close>

fun SerializeJSONProperty :: "js_value \<Rightarrow> string option" where
  "SerializeJSONProperty JUndefined = None"
| "SerializeJSONProperty JNaN = Some ''null''"
| "SerializeJSONProperty (JNum i) = Some (Number_toString i)"
| "SerializeJSONProperty (JBool b) = Some (if b then ''true'' else ''false'')"
| "SerializeJSONProperty (JStr s) = Some (QuoteJSONString s)"

fun SerializeJSONMembers :: "js_object \<Rightarrow> string list" where
  "SerializeJSONMembers [] = []"
| "SerializeJSONMembers ((P, v) # ps) =
     (case SerializeJSONProperty v of
        None \<Rightarrow> SerializeJSONMembers ps
      | Some strP \<Rightarrow> (QuoteJSONString P @ '':'' @ strP) # SerializeJSONMembers ps)"

fun join_comma :: "string list \<Rightarrow> string" where
  "join_comma [] = []"
| "join_comma [x] = x"
| "join_comma (x # y # ys) = x @ '','' @ join_comma (y # ys)"

definition JSON_stringify :: "js_object \<Rightarrow> string" where
  "JSON_stringify obj = ''{'' @ join_comma (SerializeJSONMembers obj) @ ''}''"

text \<open>\<^verbatim>\<open>function getCacheKey(params) { return JSON.stringify(params); }\<close>\<close>

definition getCacheKey :: "js_object \<Rightarrow> string" where
  "getCacheKey params = JSON_stringify params"



subsection \<open>Reading a key back\<close>







section \<open>Invalidation\<close>

text \<open>\<open>String.prototype.includes\<close>: the argument occurs as a contiguous substring.\<close>

definition String_includes :: "string \<Rightarrow> string \<Rightarrow> bool" where
  "String_includes s searchString = sublist searchString s"

text \<open>
  \<^verbatim>\<open>
  function invalidateUserCache(userId) {
    const keysToDelete = [];
    for (const key of queryCache.keys()) {
      if (key.includes(`"userId":${userId}`) || key.includes(`"researcherId":${userId}`)) {
        keysToDelete.push(key);
      }
    }
    keysToDelete.forEach(key => queryCache.delete(key));
  }
  \<close>
  \<open>key_mentions_user\<close> is the condition of the loop.
\<close>

definition key_mentions_user :: "int \<Rightarrow> string \<Rightarrow> bool" where
  \<open>key_mentions_user userId key \<longleftrightarrow>
     String_includes key (''"userId":'' @ Number_toString userId) \<or>
     String_includes key (''"researcherId":'' @ Number_toString userId)\<close>

definition invalidateUserCache :: "int \<Rightarrow> 'v query_cache \<Rightarrow> 'v query_cache" where
  "invalidateUserCache userId queryCache =
     (let keysToDelete = filter (key_mentions_user userId) (Map_keys queryCache)
      in foldl (\<lambda>c key. Map_delete key c) queryCache keysToDelete)"


text \<open>
  The keys the interactions routes store under: \<open>GET /reviews/user/:userId\<close> with
  \<open>userId = parseInt(req.params.userId)\<close>, and \<open>GET /reviews/paper/:paperId\<close> with
  \<open>paperId = req.params.paperId\<close>.
\<close>

definition userReviews_key :: "int \<Rightarrow> int \<Rightarrow> int \<Rightarrow> string" where
  "userReviews_key userId page limit =
     getCacheKey [(''userId'', JNum userId), (''page'', JNum page), (''limit'', JNum limit),
                  (''type'', JStr ''userReviews'')]"


section \<open>Query text\<close>

text \<open>
  \<open>String.prototype.trim\<close> and the regular expression class \<open>\s\<close> use the same set of
  white space and line terminator characters; within 8-bit code units these are tab, line
  feed, vertical tab, form feed, carriage return, space and the no-break space.
\<close>

definition is_whitespace :: "char \<Rightarrow> bool" where
  "is_whitespace c \<longleftrightarrow>
     c \<in> set [CHR 0x09, CHR 0x0A, CHR 0x0B, CHR 0x0C, CHR 0x0D, CHR 0x20, CHR 0xA0]"

definition trim :: "string \<Rightarrow> string" where
  "trim s = rev (dropWhile is_whitespace (rev (dropWhile is_whitespace s)))"

text \<open>
  \<open>s.split(/\s+/)\<close>: the pieces of \<open>s\<close> between maximal runs of white space. The first
  argument is the piece being read, the second tells whether the last character read was
  white space.
\<close>

fun split_ws_from :: "string \<Rightarrow> bool \<Rightarrow> string \<Rightarrow> string list" where
  "split_ws_from piece in_run [] = [piece]"
| "split_ws_from piece in_run (c # cs) =
     (if is_whitespace c then
        (if in_run then split_ws_from piece True cs else piece # split_ws_from [] True cs)
      else split_ws_from (piece @ [c]) False cs)"

definition split_whitespace :: "string \<Rightarrow> string list" where
  "split_whitespace s = split_ws_from [] False s"

section \<open>The guard of the search routes\<close>

text \<open>
  The value a route reads as the query text: \<open>req.query.q\<close> in \<open>GET /search/query\<close> of the
  papers routes, \<open>req.body.query\<close> in \<open>POST /search\<close> of the interactions routes. It is
  \<open>undefined\<close>, a string, or something else (an array or object built by the query-string
  parser, any JSON value in a body).
\<close>

datatype request_value = Missing | Text string | Other_value

record http_response =
  status :: nat
  success :: bool
  message :: string

definition query_required :: http_response where
  "query_required = \<lparr>status = 400, success = False, message = ''Search query is required''\<rparr>"

text \<open>
  \<^verbatim>\<open>
  if (!query || query.trim().length === 0) {
    return res.status(400).json({ success: false, message: 'Search query is required', data: null });
  }
  \<close>
  The result is the response sent at this point, or \<open>None\<close> when the handler goes on. A
  value that is truthy and not a string has no \<open>trim\<close> method: the call throws, and the
  \<open>catch\<close> block of the handler answers 500.
\<close>

definition papers_search_guard :: "request_value \<Rightarrow> http_response option" where
  "papers_search_guard query =
     (case query of
        Missing \<Rightarrow> Some query_required
      | Text q \<Rightarrow> if q = [] \<or> length (trim q) = 0 then Some query_required else None
      | Other_value \<Rightarrow> Some \<lparr>status = 500, success = False, message = ''Search failed''\<rparr>)"

text \<open>
  \<^verbatim>\<open>
  if (!query || typeof query !== 'string' || !query.trim()) {
    return res.status(400).json({ success: false, message: 'Search query is required', data: null });
  }
  \<close>
\<close>

definition interactions_search_guard :: "request_value \<Rightarrow> http_response option" where
  "interactions_search_guard query =
     (case query of
        Missing \<Rightarrow> Some query_required
      | Other_value \<Rightarrow> Some query_required
      | Text q \<Rightarrow> if q = [] \<or> trim q = [] then Some query_required else None)"

section \<open>The search query of the papers routes\<close>

text \<open>
  The search is one SQL statement that the handler assembles. A paper is modelled with
  what the statement reads of it: its own columns, the joined \<open>Field\<close> row (a left join,
  so possibly \<open>NULL\<close>), its \<open>Paper_Keywords\<close> rows, the names of its authors, the ratings of
  its \<open>Review\<close> rows and the number of its \<open>Download\<close> rows. Dates are day numbers.
\<close>

record paper =
  Paper_ID :: int
  Title :: string
  Abstract :: string
  Publication_Date :: int
  Field_ID :: "int option"
  Field_Name :: "string option"
  Field_Description :: "string option"
  Keywords :: "string list"
  Authors :: "(string \<times> string) list"
  Ratings :: "int list"
  Downloads :: nat

text \<open>
  \<open>value LIKE pattern\<close>: \<open>%\<close> stands for any string, \<open>_\<close> for any one character, any
  other character for itself. Letters are compared without regard to case, as under the
  case-insensitive collation the specification assumes. The bracket character classes of
  Transact-SQL are not modelled; the theorems below are about patterns without \<open>[\<close>.
\<close>

definition lower_char :: "char \<Rightarrow> char" where
  "lower_char c =
     (let n = of_char c :: nat in if 65 \<le> n \<and> n \<le> 90 then char_of (n + 32) else c)"

fun sql_like :: "string \<Rightarrow> string \<Rightarrow> bool" where
  "sql_like [] [] = True"
| "sql_like (c # cs) [] = False"
| "sql_like [] (p # ps) = (p = CHR ''%'' \<and> sql_like [] ps)"
| "sql_like (c # cs) (p # ps) =
     (if p = CHR ''%'' then sql_like (c # cs) ps \<or> sql_like cs (p # ps)
      else if p = CHR ''_'' then sql_like cs ps
      else lower_char c = lower_char p \<and> sql_like cs ps)"

text \<open>A \<open>NULL\<close> column matches no pattern.\<close>

definition sql_like_nullable :: "string option \<Rightarrow> string \<Rightarrow> bool" where
  "sql_like_nullable col pattern = (case col of None \<Rightarrow> False | Some s \<Rightarrow> sql_like s pattern)"

text \<open>
  \<^verbatim>\<open>
  const searchTerms = query.trim().split(/\s+/).filter(term => term.length > 0);
  const searchPattern = `%${query.trim()}%`;
  \<close>
\<close>

definition searchTerms :: "string \<Rightarrow> string list" where
  "searchTerms query = filter (\<lambda>term. length term > 0) (split_whitespace (trim query))"

definition searchPattern :: "string \<Rightarrow> string" where
  "searchPattern query = ''%'' @ trim query @ ''%''"

text \<open>The two \<open>EXISTS\<close> subqueries, on the keyword rows and on the authors of the paper.\<close>

definition keywords_like :: "paper \<Rightarrow> string \<Rightarrow> bool" where
  "keywords_like p pattern = (\<exists>kw \<in> set (Keywords p). sql_like kw pattern)"

definition authors_like :: "paper \<Rightarrow> string \<Rightarrow> bool" where
  "authors_like p pattern =
     (\<exists>a \<in> set (Authors p). sql_like (fst a) pattern \<or> sql_like (snd a) pattern)"

text \<open>
  \<open>whereConditions\<close>: the base search condition, then the field filter and the two date
  filters, each present only when its parameter was sent.
\<close>

definition base_search_condition :: "string \<Rightarrow> paper \<Rightarrow> bool" where
  "base_search_condition query p \<longleftrightarrow>
     sql_like (Title p) (searchPattern query)
     \<or> sql_like (Abstract p) (searchPattern query)
     \<or> sql_like_nullable (Field_Name p) (searchPattern query)
     \<or> sql_like_nullable (Field_Description p) (searchPattern query)
     \<or> keywords_like p (searchPattern query)
     \<or> authors_like p (searchPattern query)"

definition whereConditions ::
  "string \<Rightarrow> int option \<Rightarrow> int option \<Rightarrow> int option \<Rightarrow> paper \<Rightarrow> bool" where
  "whereConditions query fieldId dateFrom dateTo p \<longleftrightarrow>
     base_search_condition query p
     \<and> (case fieldId of None \<Rightarrow> True | Some f \<Rightarrow> Field_ID p = Some f)
     \<and> (case dateFrom of None \<Rightarrow> True | Some d \<Rightarrow> Publication_Date p \<ge> d)
     \<and> (case dateTo of None \<Rightarrow> True | Some d \<Rightarrow> Publication_Date p \<le> d)"

text \<open>
  \<open>relevanceScoreParts\<close>, in the order the handler pushes them; each part is a
  \<open>CASE WHEN ... THEN w ELSE 0 END\<close>, and the score is the parts joined by \<open>+\<close>.
\<close>

definition case_when :: "bool \<Rightarrow> int \<Rightarrow> int" where
  "case_when cond w = (if cond then w else 0)"

definition relevanceScoreParts :: "string \<Rightarrow> paper \<Rightarrow> int list" where
  "relevanceScoreParts query p =
     [case_when (sql_like (Title p) (searchPattern query)) 1000]
     @ map (\<lambda>term. case_when (sql_like (Title p) (''%'' @ term @ ''%'')) 100) (searchTerms query)
     @ [case_when (keywords_like p (searchPattern query)) 500,
        case_when (sql_like (Abstract p) (searchPattern query)) 200,
        case_when (sql_like_nullable (Field_Name p) (searchPattern query)) 150,
        case_when (authors_like p (searchPattern query)) 300]"

definition relevanceScore :: "string \<Rightarrow> paper \<Rightarrow> int" where
  "relevanceScore query p = sum_list (relevanceScoreParts query p)"

text \<open>
  A row of \<open>SearchResults\<close>. \<open>Average_Rating\<close> is
  \<open>ISNULL(AVG(CAST(Rating as FLOAT)), 0)\<close>, kept as an exact fraction.
\<close>

record result_row =
  row_paper :: paper
  Relevance_Score :: int
  Author_Count :: nat
  Download_Count :: nat
  Average_Rating :: rat
  Review_Count :: nat

definition average_rating :: "int list \<Rightarrow> rat" where
  "average_rating rs = (if rs = [] then 0 else of_int (sum_list rs) / of_nat (length rs))"

definition result_row_of :: "string \<Rightarrow> paper \<Rightarrow> result_row" where
  "result_row_of query p =
     \<lparr>row_paper = p,
      Relevance_Score = relevanceScore query p,
      Author_Count = length (Authors p),
      Download_Count = Downloads p,
      Average_Rating = average_rating (Ratings p),
      Review_Count = length (Ratings p)\<rparr>"

text \<open>
  The rows the statement orders: the papers that pass \<open>whereConditions\<close>, then
  \<open>havingConditions\<close>, which holds \<open>Average_Rating >= @minRating\<close> when \<open>minRating > 0\<close>.
\<close>

definition SearchResults ::
  "string \<Rightarrow> int option \<Rightarrow> int option \<Rightarrow> int option \<Rightarrow> rat \<Rightarrow> paper list \<Rightarrow> result_row list" where
  "SearchResults query fieldId dateFrom dateTo minRating papers =
     filter (\<lambda>r. minRating > 0 \<longrightarrow> Average_Rating r \<ge> minRating)
       (map (result_row_of query) (filter (whereConditions query fieldId dateFrom dateTo) papers))"

text \<open>
  \<^verbatim>\<open>
  switch (sortBy) {
    case 'date':      orderByClause = 'Publication_Date DESC, Relevance_Score DESC'; break;
    case 'rating':    orderByClause = 'Average_Rating DESC, Relevance_Score DESC, Publication_Date DESC'; break;
    case 'downloads': orderByClause = 'Download_Count DESC, Relevance_Score DESC, Publication_Date DESC'; break;
    case 'relevance':
    default:          orderByClause = 'Relevance_Score DESC, Average_Rating DESC, Download_Count DESC, Publication_Date DESC';
  }
  \<close>
\<close>

datatype order_column =
  By_Relevance_Score | By_Average_Rating | By_Download_Count | By_Publication_Date | By_Paper_ID

datatype direction = ASC | DESC

definition orderByClause :: "string \<Rightarrow> (order_column \<times> direction) list" where
  "orderByClause sortBy =
     (if sortBy = ''date'' then [(By_Publication_Date, DESC), (By_Relevance_Score, DESC)]
      else if sortBy = ''rating'' then
        [(By_Average_Rating, DESC), (By_Relevance_Score, DESC), (By_Publication_Date, DESC)]
      else if sortBy = ''downloads'' then
        [(By_Download_Count, DESC), (By_Relevance_Score, DESC), (By_Publication_Date, DESC)]
      else
        [(By_Relevance_Score, DESC), (By_Average_Rating, DESC), (By_Download_Count, DESC),
         (By_Publication_Date, DESC)])"

text \<open>
  \<open>ORDER BY\<close>: the value a row is compared by in each column, and when a row may stand
  before another under a clause. SQL leaves the relative order of rows that are equal in
  every column of the clause open, so the ordered result is any arrangement of the rows
  that respects the clause.
\<close>

fun column_value :: "order_column \<Rightarrow> result_row \<Rightarrow> rat" where
  "column_value By_Relevance_Score r = of_int (Relevance_Score r)"
| "column_value By_Average_Rating r = Average_Rating r"
| "column_value By_Download_Count r = of_nat (Download_Count r)"
| "column_value By_Publication_Date r = of_int (Publication_Date (row_paper r))"
| "column_value By_Paper_ID r = of_int (Paper_ID (row_paper r))"

fun order_before :: "(order_column \<times> direction) list \<Rightarrow> result_row \<Rightarrow> result_row \<Rightarrow> bool" where
  "order_before [] a b = True"
| "order_before ((col, dir) # clause) a b =
     (if column_value col a = column_value col b then order_before clause a b
      else (case dir of
              ASC \<Rightarrow> column_value col a < column_value col b
            | DESC \<Rightarrow> column_value col a > column_value col b))"

definition is_ordered_by ::
  "(order_column \<times> direction) list \<Rightarrow> result_row list \<Rightarrow> result_row list \<Rightarrow> bool" where
  "is_ordered_by clause rows result \<longleftrightarrow>
     mset result = mset rows \<and> sorted_wrt (order_before clause) result"

text \<open>\<open>OFFSET @offset ROWS FETCH NEXT @limit ROWS ONLY\<close>\<close>

definition fetch_page :: "nat \<Rightarrow> nat \<Rightarrow> result_row list \<Rightarrow> result_row list" where
  "fetch_page offset limit result = take limit (drop offset result)"

text \<open>
  The values a clause compares a row by, negated in a descending column, so that a row may
  stand before another exactly when its tuple is lexicographically not greater.
\<close>

definition order_key :: "(order_column \<times> direction) list \<Rightarrow> result_row \<Rightarrow> rat list" where
  "order_key clause r =
     map (\<lambda>(col, dir). case dir of ASC \<Rightarrow> column_value col r | DESC \<Rightarrow> - column_value col r)
       clause"

text \<open>
  What the specification calls a case-insensitive substring match, and the query texts in
  which no character has a special meaning to \<open>LIKE\<close>.
\<close>

definition ci_substring :: "string \<Rightarrow> string \<Rightarrow> bool" where
  "ci_substring text s = sublist (map lower_char text) (map lower_char s)"

definition wildcard_free :: "string \<Rightarrow> bool" where
  "wildcard_free text \<longleftrightarrow> (\<forall>c \<in> set text. c \<notin> {CHR ''%'', CHR ''_'', CHR ''[''})"

text \<open>The papers of the scenario: the query text is \<open>neural networks\<close>.\<close>

definition blank_paper :: paper where
  "blank_paper =
     \<lparr>Paper_ID = 0, Title = [], Abstract = [], Publication_Date = 0, Field_ID = None,
      Field_Name = None, Field_Description = None, Keywords = [], Authors = [],
      Ratings = [], Downloads = 0\<rparr>"

definition exact_title_paper :: paper where
  "exact_title_paper = blank_paper\<lparr>Paper_ID := 1, Title := ''Neural Networks''\<rparr>"

definition abstract_word_paper :: paper where
  "abstract_word_paper = blank_paper\<lparr>Paper_ID := 2, Abstract := ''neural''\<rparr>"

definition abstract_phrase_paper :: paper where
  "abstract_phrase_paper =
     blank_paper\<lparr>Paper_ID := 3, Abstract := ''A survey of neural networks''\<rparr>"

text \<open>
  The relevance score in the words of the specification: a sum of weighted signals, each
  either absent or counted in full.
\<close>

definition weighted_signal_score :: "string \<Rightarrow> paper \<Rightarrow> int" where
  "weighted_signal_score query p =
     (if ci_substring (trim query) (Title p) then 1000 else 0)
     + 100 * int (length (filter (\<lambda>term. ci_substring term (Title p)) (searchTerms query)))
     + (if \<exists>kw \<in> set (Keywords p). ci_substring (trim query) kw then 500 else 0)
     + (if \<exists>a \<in> set (Authors p).
             ci_substring (trim query) (fst a) \<or> ci_substring (trim query) (snd a)
        then 300 else 0)
     + (if ci_substring (trim query) (Abstract p) then 200 else 0)
     + (if (case Field_Name p of None \<Rightarrow> False | Some f \<Rightarrow> ci_substring (trim query) f)
        then 150 else 0)"

text \<open>
  A concrete run used below: \<open>n\<close> insertions under distinct keys, a read of the oldest
  key, and one more insertion.
\<close>

definition eviction_demo_ops :: "nat \<Rightarrow> nat cache_op list" where
  "eviction_demo_ops n =
     map (\<lambda>i. Put (nat_to_string i) i (int i)) [0..<n]
     @ [Get ''0'' 250, Put (nat_to_string n) n 300]"

section \<open>The cache key determines the defined properties\<close>



lemma distinct_digits: "distinct ''0123456789''"
  by simp

lemma digit_char_inj: "a < 10 \<Longrightarrow> b < 10 \<Longrightarrow> digit_char a = digit_char b \<Longrightarrow> a = b"
  using nth_eq_iff_index_eq [OF distinct_digits, of a b] by (simp add: digit_char_def)


lemma nat_to_string_nonempty: "nat_to_string n \<noteq> []"
  by (simp add: nat_to_string.simps [of n])

lemma nat_to_string_inj: "nat_to_string m = nat_to_string n \<Longrightarrow> m = n"
proof (induction m arbitrary: n rule: nat_to_string.induct)
  case (1 m)
  show ?case
  proof (cases "m < 10")
    case m: True
    show ?thesis
    proof (cases "n < 10")
      case True
      then show ?thesis using m 1(2) digit_char_inj
        by (simp add: nat_to_string.simps [of m] nat_to_string.simps [of n])
    next
      case False
      then show ?thesis using m 1(2) nat_to_string_nonempty [of "n div 10"]
        by (simp add: nat_to_string.simps [of m] nat_to_string.simps [of n])
    qed
  next
    case m: False
    show ?thesis
    proof (cases "n < 10")
      case True
      then show ?thesis using m 1(2) nat_to_string_nonempty [of "m div 10"]
        by (simp add: nat_to_string.simps [of m] nat_to_string.simps [of n])
    next
      case False
      then have "nat_to_string (m div 10) = nat_to_string (n div 10)"
        and "digit_char (m mod 10) = digit_char (n mod 10)"
        using m 1(2) by (simp_all add: nat_to_string.simps [of m] nat_to_string.simps [of n])
      then have "m div 10 = n div 10" and "m mod 10 = n mod 10"
        using 1(1) [OF m] digit_char_inj [of "m mod 10" "n mod 10"] by auto
      then show ?thesis by (metis div_mult_mod_eq)
    qed
  qed
qed





































section \<open>Facts about the map operations\<close>

lemma Map_get_set: "Map_get (Map_set k v m) k' = (if k' = k then Some v else Map_get m k')"
  by (induction m) auto

lemma Map_get_delete:
  "Map_get (Map_delete k m) k' = (if k' = k then None else Map_get m k')"
  by (induction m) (auto simp: Map_delete_def)

lemma Map_get_None_iff: "Map_get m k = None \<longleftrightarrow> k \<notin> fst ` set m"
  by (induction m) auto

lemma Map_delete_absent: "Map_get m k = None \<Longrightarrow> Map_delete k m = m"
  by (induction m) (auto simp: Map_delete_def split: if_splits)

lemma Map_set_keys:
  "map fst (Map_set k v m) = (if k \<in> fst ` set m then map fst m else map fst m @ [k])"
  by (induction m) auto

lemma Map_set_new: "k \<notin> fst ` set m \<Longrightarrow> Map_set k v m = m @ [(k, v)]"
  by (induction m) auto

lemma Map_set_length:
  "length (Map_set k v m) = (if k \<in> fst ` set m then length m else Suc (length m))"
  by (induction m) auto

lemma Map_delete_hd:
  "distinct (map fst (p # ps)) \<Longrightarrow> Map_delete (fst p) (p # ps) = ps"
  by (auto simp: Map_delete_def intro!: filter_True) (metis fst_conv image_eqI)

section \<open>Reads within and after the time to live\<close>

lemma getCachedQuery_present:
  "Map_get c k = Some e \<Longrightarrow>
   fst (getCachedQuery ttl t k c) = (if t - timestamp e < ttl then Some (data e) else None)"
  by (simp add: getCachedQuery_def)

lemma setCachedQuery_stores:
  assumes "length c \<le> cap" and "0 < cap"
  shows "Map_get (setCachedQuery cap t0 k v c) k = Some \<lparr>data = v, timestamp = t0\<rparr>"
proof (cases "k \<in> fst ` set c")
  case True
  then have "length (Map_set k \<lparr>data = v, timestamp = t0\<rparr> c) \<le> cap"
    using assms by (simp add: Map_set_length)
  then show ?thesis
    by (simp add: setCachedQuery_def Map_size_def Map_get_set)
next
  case False
  show ?thesis
  proof (cases c)
    case Nil
    then show ?thesis using assms by (simp add: setCachedQuery_def Map_size_def)
  next
    case (Cons p ps)
    then have "fst p \<noteq> k" using False by auto
    then show ?thesis
      using False Cons
      by (simp add: setCachedQuery_def Map_size_def Map_first_key_def
          Map_get_delete Map_get_set Let_def)
  qed
qed

text \<open>
  Claim C4. After \<open>setCachedQuery(k, v)\<close> at time \<open>t0\<close> on a cache within its size bound,
  \<open>getCachedQuery(k)\<close> at time \<open>t\<close> returns \<open>v\<close> when \<open>t - t0 < CACHE_TTL\<close> and
  \<open>null\<close> when \<open>t - t0 \<ge> CACHE_TTL\<close>, for the papers cache (60000 ms, 100 entries) and
  for the interactions cache (300000 ms, 200 entries).
\<close>

theorem get_after_set_ttl:
  "(length c \<le> papers_max_size \<longrightarrow>
      fst (papers_getCachedQuery t k (papers_setCachedQuery t0 k v c)) =
        (if t - t0 < papers_CACHE_TTL then Some v else None)) \<and>
   (length c \<le> interactions_max_size \<longrightarrow>
      fst (interactions_getCachedQuery t k (interactions_setCachedQuery t0 k v c)) =
        (if t - t0 < interactions_CACHE_TTL then Some v else None))"
proof -
  have "fst (getCachedQuery ttl t k (setCachedQuery cap t0 k v c)) =
          (if t - t0 < ttl then Some v else None)"
    if "length c \<le> cap" "0 < cap" for ttl cap
    using setCachedQuery_stores [OF that, of t0 k v]
    by (simp add: getCachedQuery_present)
  then show ?thesis
    by (simp add: papers_getCachedQuery_def papers_setCachedQuery_def
        interactions_getCachedQuery_def interactions_setCachedQuery_def
        papers_max_size_def interactions_max_size_def)
qed

theorem get_after_set_ttl_witness:
  "fst (papers_getCachedQuery 59999 ''k'' (papers_setCachedQuery 0 ''k'' (7::nat) [])) = Some 7 \<and>
   fst (papers_getCachedQuery 60000 ''k'' (papers_setCachedQuery 0 ''k'' (7::nat) [])) = None \<and>
   fst (interactions_getCachedQuery 299999 ''k''
          (interactions_setCachedQuery 0 ''k'' (7::nat) [])) = Some 7 \<and>
   fst (interactions_getCachedQuery 300000 ''k''
          (interactions_setCachedQuery 0 ''k'' (7::nat) [])) = None"
  using get_after_set_ttl [of "[]" 59999 "''k''" 0 "7::nat"]
    get_after_set_ttl [of "[]" 60000 "''k''" 0 "7::nat"]
    get_after_set_ttl [of "[]" 299999 "''k''" 0 "7::nat"]
    get_after_set_ttl [of "[]" 300000 "''k''" 0 "7::nat"]
  by (simp add: papers_CACHE_TTL_def interactions_CACHE_TTL_def)


section \<open>Reads that miss\<close>

lemma getCachedQuery_hit_same:
  "fst (getCachedQuery ttl t k c) = Some v \<Longrightarrow> snd (getCachedQuery ttl t k c) = c"
  by (auto simp: getCachedQuery_def split: option.splits if_splits)

lemma getCachedQuery_miss:
  "fst (getCachedQuery ttl t k c) = None \<Longrightarrow> snd (getCachedQuery ttl t k c) = Map_delete k c"
  by (auto simp: getCachedQuery_def split: option.splits if_splits)

text \<open>
  Claim C5 says that a read that misses leaves the cache as it was. A miss on a key that is
  stored but expired runs \<open>queryCache.delete(key)\<close>: the entry is gone afterwards.
\<close>

theorem get_miss_deletes_expired_counterexample:
  "fst (papers_getCachedQuery 60000 ''k'' [(''k'', \<lparr>data = 7::nat, timestamp = 0\<rparr>)]) = None \<and>
   snd (papers_getCachedQuery 60000 ''k'' [(''k'', \<lparr>data = 7::nat, timestamp = 0\<rparr>)])
     \<noteq> [(''k'', \<lparr>data = 7::nat, timestamp = 0\<rparr>)]"
  by (simp add: papers_getCachedQuery_def getCachedQuery_def papers_CACHE_TTL_def Map_delete_def)

text \<open>
  Claim C5, amended. A read that misses returns the cache without the entry of the key read
  and with every other entry in place and in order; when the key is not stored (never
  stored, evicted or invalidated) the cache is unchanged.
\<close>

theorem get_miss_effect:
  "fst (getCachedQuery ttl now k c) = None \<longrightarrow>
     snd (getCachedQuery ttl now k c) = filter (\<lambda>p. fst p \<noteq> k) c \<and>
     (k \<notin> fst ` set c \<longrightarrow> snd (getCachedQuery ttl now k c) = c) \<and>
     (\<forall>k'. k' \<noteq> k \<longrightarrow> Map_get (snd (getCachedQuery ttl now k c)) k' = Map_get c k')"
proof
  assume miss: "fst (getCachedQuery ttl now k c) = None"
  then have d: "snd (getCachedQuery ttl now k c) = Map_delete k c"
    by (rule getCachedQuery_miss)
  have "k \<notin> fst ` set c \<longrightarrow> Map_delete k c = c"
    by (simp add: Map_delete_absent Map_get_None_iff)
  then show "snd (getCachedQuery ttl now k c) = filter (\<lambda>p. fst p \<noteq> k) c \<and>
     (k \<notin> fst ` set c \<longrightarrow> snd (getCachedQuery ttl now k c) = c) \<and>
     (\<forall>k'. k' \<noteq> k \<longrightarrow> Map_get (snd (getCachedQuery ttl now k c)) k' = Map_get c k')"
    using d by (simp add: Map_get_delete) (simp add: Map_delete_def)
qed

theorem get_miss_effect_witness:
  "snd (getCachedQuery 60000 60000 ''k''
          [(''j'', \<lparr>data = 1::nat, timestamp = 0\<rparr>), (''k'', \<lparr>data = 7, timestamp = 0\<rparr>)])
     = [(''j'', \<lparr>data = 1, timestamp = 0\<rparr>)] \<and>
   snd (getCachedQuery 60000 5 ''z'' [(''j'', \<lparr>data = 1::nat, timestamp = 0\<rparr>)])
     = [(''j'', \<lparr>data = 1, timestamp = 0\<rparr>)]"
proof -
  have a: "fst (getCachedQuery 60000 60000 ''k''
          [(''j'', \<lparr>data = 1::nat, timestamp = 0\<rparr>), (''k'', \<lparr>data = 7, timestamp = 0\<rparr>)]) = None"
    by (simp add: getCachedQuery_def)
  have b: "fst (getCachedQuery 60000 5 ''z'' [(''j'', \<lparr>data = 1::nat, timestamp = 0\<rparr>)]) = None"
    by (simp add: getCachedQuery_def)
  show ?thesis
    using get_miss_effect [of 60000 60000 "''k''"
        "[(''j'', \<lparr>data = 1::nat, timestamp = 0\<rparr>), (''k'', \<lparr>data = 7, timestamp = 0\<rparr>)]"]
      get_miss_effect [of 60000 5 "''z''" "[(''j'', \<lparr>data = 1::nat, timestamp = 0\<rparr>)]"] a b
    by simp
qed

section \<open>Eviction\<close>

lemma puts_of_append: "puts_of (xs @ ys) = puts_of xs @ puts_of ys"
  by (induction xs rule: puts_of.induct) auto

lemma get_times_append: "get_times (xs @ ys) = get_times xs @ get_times ys"
  by (induction xs rule: get_times.induct) auto

lemma Map_get_Some_mem: "Map_get m k = Some e \<Longrightarrow> (k, e) \<in> set m"
  by (induction m) (auto split: if_splits)

lemma getCachedQuery_fresh_same:
  assumes "\<forall>e. (k, e) \<in> set c \<longrightarrow> t - timestamp e < ttl"
  shows "snd (getCachedQuery ttl t k c) = c"
proof (cases "Map_get c k")
  case None
  then show ?thesis by (simp add: getCachedQuery_def Map_delete_absent)
next
  case (Some e)
  then have "t - timestamp e < ttl" using assms Map_get_Some_mem by fastforce
  then show ?thesis using Some by (simp add: getCachedQuery_def)
qed

lemma setCachedQuery_new:
  assumes "k \<notin> fst ` set c" and "distinct (map fst c)" and "0 < cap" and "length c \<le> cap"
  shows "setCachedQuery cap t k v c =
           drop (Suc (length c) - cap) (c @ [(k, \<lparr>data = v, timestamp = t\<rparr>)])"
proof (cases "length c < cap")
  case True
  then show ?thesis using assms
    by (simp add: setCachedQuery_def Map_size_def Map_set_new)
next
  case False
  then have len: "length c = cap" using assms by simp
  then obtain p ps where c: "c = p # ps" using assms by (cases c) auto
  have "distinct (map fst (p # ps @ [(k, \<lparr>data = v, timestamp = t\<rparr>)]))"
    using assms c by auto
  from Map_delete_hd [OF this] show ?thesis
    using assms(1) len c
    by (simp add: setCachedQuery_def Map_size_def Map_set_new Map_first_key_def
        del: Map_set.simps)
qed

lemma drop_window_snoc:
  assumes "0 < cap"
  shows "drop (Suc (length (drop (length ps - cap) ps)) - cap) (drop (length ps - cap) ps @ [y]) =
         drop (length (ps @ [y]) - cap) (ps @ [y])"
proof (cases "length ps < cap")
  case True
  then show ?thesis by simp
next
  case False
  then have "Suc (length ps) - cap = Suc (length ps - cap)" by simp
  moreover have "Suc (length ps - (length ps - cap)) - cap = Suc 0"
    using False by simp
  moreover have "length ps - cap < length ps" using False assms by simp
  ultimately show ?thesis by (simp add: drop_Suc tl_drop [symmetric] drop_tl)
qed

lemma run_snoc: "run ttl cap (ops @ [x]) c = apply_op ttl cap x (run ttl cap ops c)"
  by (simp add: run_def)

lemma run_puts:
  assumes "0 < cap"
    and "distinct (map fst (puts_of ops))"
    and "\<forall>t \<in> set (get_times ops). \<forall>p \<in> set (puts_of ops). t - timestamp (snd p) < ttl"
  shows "run ttl cap ops [] = drop (length (puts_of ops) - cap) (puts_of ops)"
  using assms(2,3)
proof (induction ops rule: rev_induct)
  case Nil
  then show ?case by (simp add: run_def)
next
  case (snoc x ops)
  let ?c = "run ttl cap ops []"
  have IH: "?c = drop (length (puts_of ops) - cap) (puts_of ops)"
    using snoc by (auto simp: puts_of_append get_times_append)
  show ?case
  proof (cases x)
    case (Put k v t)
    have k: "k \<notin> fst ` set (puts_of ops)" and d: "distinct (map fst (puts_of ops))"
      using snoc.prems(1) Put by (auto simp: puts_of_append)
    have "k \<notin> fst ` set ?c"
      using k IH by (metis (no_types, lifting) image_iff in_set_dropD)
    moreover have "distinct (map fst ?c)"
      using d IH by (simp add: distinct_drop drop_map [symmetric])
    moreover have "length ?c \<le> cap" using IH by simp
    ultimately have "setCachedQuery cap t k v ?c =
        drop (Suc (length ?c) - cap) (?c @ [(k, \<lparr>data = v, timestamp = t\<rparr>)])"
      using assms(1) by (simp add: setCachedQuery_new)
    also have "\<dots> = drop (length (puts_of (ops @ [x])) - cap) (puts_of (ops @ [x]))"
      using IH Put drop_window_snoc [OF assms(1), of "puts_of ops"]
      by (simp add: puts_of_append)
    finally show ?thesis using Put by (simp add: run_snoc)
  next
    case (Get k t)
    have "\<forall>e. (k, e) \<in> set ?c \<longrightarrow> t - timestamp e < ttl"
    proof (intro allI impI)
      fix e assume "(k, e) \<in> set ?c"
      then have "(k, e) \<in> set (puts_of ops)" using IH by (metis in_set_dropD)
      then show "t - timestamp e < ttl"
        using snoc.prems(2) Get by (force simp: puts_of_append get_times_append)
    qed
    then have "snd (getCachedQuery ttl t k ?c) = ?c" by (rule getCachedQuery_fresh_same)
    then show ?thesis using Get IH by (simp add: run_snoc puts_of_append)
  qed
qed

lemma Map_get_distinct:
  "distinct (map fst m) \<Longrightarrow> (k, e) \<in> set m \<Longrightarrow> Map_get m k = Some e"
  by (induction m) (auto simp: rev_image_eqI)

text \<open>
  Claim C3. Take any sequence of cache calls on an empty cache of the papers routes (100
  entries, 60000 ms) or of the interactions routes (200 entries, 300000 ms) in which the
  insertions are capacity + 1 in number and have distinct keys, with any reads in between,
  all within the time to live of every insertion. Afterwards the cache holds the entries
  of all insertions but the first, in insertion order: a read of the first key returns
  \<open>null\<close>, a read of any other inserted key returns its value. Reads do not change which
  entry is evicted.
\<close>

theorem fifo_eviction:
  assumes "(ttl, cap) \<in> {(papers_CACHE_TTL, papers_max_size),
                         (interactions_CACHE_TTL, interactions_max_size)}"
    and "distinct (map fst (puts_of ops))"
    and "length (puts_of ops) = cap + 1"
    and "\<forall>t \<in> set (get_times ops). \<forall>p \<in> set (puts_of ops). t - timestamp (snd p) < ttl"
    and "\<forall>p \<in> set (puts_of ops). now - timestamp (snd p) < ttl"
  shows "run ttl cap ops [] = tl (puts_of ops) \<and>
         fst (getCachedQuery ttl now (fst (hd (puts_of ops))) (run ttl cap ops [])) = None \<and>
         (\<forall>p \<in> set (tl (puts_of ops)).
            fst (getCachedQuery ttl now (fst p) (run ttl cap ops [])) = Some (data (snd p)))"
proof -
  have cap: "0 < cap"
    using assms(1) by (auto simp: papers_max_size_def interactions_max_size_def)
  have r: "run ttl cap ops [] = tl (puts_of ops)"
    using run_puts [OF cap assms(2) assms(4)] assms(3) by (simp add: drop_Suc)
  obtain p ps where ps: "puts_of ops = p # ps"
    using assms(3) by (cases "puts_of ops") auto
  have "fst p \<notin> fst ` set ps" and d: "distinct (map fst ps)"
    using assms(2) ps by auto
  then have "Map_get ps (fst p) = None" by (simp add: Map_get_None_iff)
  then have first: "fst (getCachedQuery ttl now (fst p) ps) = None"
    by (simp add: getCachedQuery_def)
  have others: "fst (getCachedQuery ttl now (fst q) ps) = Some (data (snd q))"
    if "q \<in> set ps" for q
  proof -
    have "Map_get ps (fst q) = Some (snd q)"
      using Map_get_distinct [OF d, of "fst q" "snd q"] that by simp
    moreover have "now - timestamp (snd q) < ttl" using assms(5) ps that by simp
    ultimately show ?thesis by (simp add: getCachedQuery_present)
  qed
  show ?thesis using r ps first others by simp
qed


lemma puts_of_map_Put:
  "puts_of (map (\<lambda>i. Put (f i) (g i) (h i)) xs @ ops) =
     map (\<lambda>i. (f i, \<lparr>data = g i, timestamp = h i\<rparr>)) xs @ puts_of ops"
  by (induction xs) auto

lemma get_times_map_Put:
  "get_times (map (\<lambda>i. Put (f i) (g i) (h i)) xs @ ops) = get_times ops"
  by (induction xs) auto

lemma puts_of_demo:
  "puts_of (eviction_demo_ops n) =
     map (\<lambda>i. (nat_to_string i, \<lparr>data = i, timestamp = int i\<rparr>)) [0..<n]
     @ [(nat_to_string n, \<lparr>data = n, timestamp = 300\<rparr>)]"
  by (simp add: eviction_demo_ops_def puts_of_map_Put)

lemma get_times_demo: "get_times (eviction_demo_ops n) = [250]"
  by (simp add: eviction_demo_ops_def get_times_map_Put)

lemma keys_demo: "map fst (puts_of (eviction_demo_ops n)) = map nat_to_string [0..<Suc n]"
  by (simp add: puts_of_demo comp_def)

lemma distinct_demo: "distinct (map fst (puts_of (eviction_demo_ops n)))"
  unfolding keys_demo
  by (rule iffD2 [OF distinct_map]) (auto simp: inj_on_def dest: nat_to_string_inj)

lemma demo_facts:
  assumes "2 \<le> n"
  shows "hd (puts_of (eviction_demo_ops n)) = (''0'', \<lparr>data = 0, timestamp = 0\<rparr>)"
    and "(''1'', \<lparr>data = 1, timestamp = 1\<rparr>) \<in> set (tl (puts_of (eviction_demo_ops n)))"
    and "(nat_to_string n, \<lparr>data = n, timestamp = 300\<rparr>) \<in> set (tl (puts_of (eviction_demo_ops n)))"
proof -
  have zero: "nat_to_string 0 = ''0''" and one: "nat_to_string (Suc 0) = ''1''"
    by code_simp+
  obtain m where n: "n = Suc (Suc m)" using assms by (metis Suc_le_D numeral_2_eq_2 Suc_le_mono)
  have up: "[0..<n] = 0 # 1 # [2..<n]"
    using n by (simp add: upt_conv_Cons numeral_2_eq_2)
  show "hd (puts_of (eviction_demo_ops n)) = (''0'', \<lparr>data = 0, timestamp = 0\<rparr>)"
    by (simp add: puts_of_demo up zero)
  show "(''1'', \<lparr>data = 1, timestamp = 1\<rparr>) \<in> set (tl (puts_of (eviction_demo_ops n)))"
    by (simp add: puts_of_demo up one)
  show "(nat_to_string n, \<lparr>data = n, timestamp = 300\<rparr>) \<in> set (tl (puts_of (eviction_demo_ops n)))"
    by (simp add: puts_of_demo up)
qed

lemma demo_window:
  assumes "400 < ttl"
  shows "\<forall>t \<in> set (get_times (eviction_demo_ops n)). \<forall>p \<in> set (puts_of (eviction_demo_ops n)).
           t - timestamp (snd p) < ttl"
    and "\<forall>p \<in> set (puts_of (eviction_demo_ops n)). 400 - timestamp (snd p) < ttl"
  using assms by (auto simp: puts_of_demo get_times_demo)

theorem fifo_eviction_witness:
  "fst (getCachedQuery papers_CACHE_TTL 400 ''0''
          (run papers_CACHE_TTL papers_max_size (eviction_demo_ops 100) [])) = None \<and>
   fst (getCachedQuery papers_CACHE_TTL 400 ''1''
          (run papers_CACHE_TTL papers_max_size (eviction_demo_ops 100) [])) = Some 1 \<and>
   fst (getCachedQuery papers_CACHE_TTL 400 (nat_to_string 100)
          (run papers_CACHE_TTL papers_max_size (eviction_demo_ops 100) [])) = Some 100 \<and>
   fst (getCachedQuery interactions_CACHE_TTL 400 ''0''
          (run interactions_CACHE_TTL interactions_max_size (eviction_demo_ops 200) [])) = None \<and>
   fst (getCachedQuery interactions_CACHE_TTL 400 ''1''
          (run interactions_CACHE_TTL interactions_max_size (eviction_demo_ops 200) [])) = Some 1 \<and>
   fst (getCachedQuery interactions_CACHE_TTL 400 (nat_to_string 200)
          (run interactions_CACHE_TTL interactions_max_size (eviction_demo_ops 200) [])) = Some 200"
proof -
  have p1: "(papers_CACHE_TTL, papers_max_size) \<in>
      {(papers_CACHE_TTL, papers_max_size), (interactions_CACHE_TTL, interactions_max_size)}"
    by simp
  have p3: "length (puts_of (eviction_demo_ops 100)) = papers_max_size + 1"
    by (simp add: puts_of_demo papers_max_size_def)
  have pw: "400 < papers_CACHE_TTL" by (simp add: papers_CACHE_TTL_def)
  note p = fifo_eviction [OF p1 distinct_demo p3 demo_window [OF pw]]
  have i1: "(interactions_CACHE_TTL, interactions_max_size) \<in>
      {(papers_CACHE_TTL, papers_max_size), (interactions_CACHE_TTL, interactions_max_size)}"
    by simp
  have i3: "length (puts_of (eviction_demo_ops 200)) = interactions_max_size + 1"
    by (simp add: puts_of_demo interactions_max_size_def)
  have iw: "400 < interactions_CACHE_TTL" by (simp add: interactions_CACHE_TTL_def)
  note i = fifo_eviction [OF i1 distinct_demo i3 demo_window [OF iw]]
  have "fst (getCachedQuery papers_CACHE_TTL 400 ''0''
          (run papers_CACHE_TTL papers_max_size (eviction_demo_ops 100) [])) = None \<and>
   fst (getCachedQuery papers_CACHE_TTL 400 ''1''
          (run papers_CACHE_TTL papers_max_size (eviction_demo_ops 100) [])) = Some 1 \<and>
   fst (getCachedQuery papers_CACHE_TTL 400 (nat_to_string 100)
          (run papers_CACHE_TTL papers_max_size (eviction_demo_ops 100) [])) = Some 100"
    using p demo_facts [of 100] by fastforce
  moreover
  have "fst (getCachedQuery interactions_CACHE_TTL 400 ''0''
          (run interactions_CACHE_TTL interactions_max_size (eviction_demo_ops 200) [])) = None \<and>
   fst (getCachedQuery interactions_CACHE_TTL 400 ''1''
          (run interactions_CACHE_TTL interactions_max_size (eviction_demo_ops 200) [])) = Some 1 \<and>
   fst (getCachedQuery interactions_CACHE_TTL 400 (nat_to_string 200)
          (run interactions_CACHE_TTL interactions_max_size (eviction_demo_ops 200) [])) = Some 200"
    using i demo_facts [of 200] by fastforce
  ultimately show ?thesis by simp
qed

section \<open>Invalidation after writes\<close>





text \<open>
  Claim C1 asks that \<open>invalidateUserCache(userId)\<close> remove the entries of that user and no
  others. The test is a substring test on the key, and \<open>"userId":1\<close> is a substring of
  \<open>{"userId":12,...}\<close>: invalidating user 1 also removes the cached reviews of user 12,
  which were readable before.
\<close>

theorem invalidateUserCache_removes_other_user:
  "userReviews_key 12 1 10 \<noteq> userReviews_key 1 1 10 \<and>
   fst (interactions_getCachedQuery 5
          (userReviews_key 12 1 10)
          [(userReviews_key 1 1 10, \<lparr>data = ''reviews of user 1'', timestamp = 0\<rparr>),
           (userReviews_key 12 1 10, \<lparr>data = ''reviews of user 12'', timestamp = 0\<rparr>)])
     = Some ''reviews of user 12'' \<and>
   invalidateUserCache 1
     [(userReviews_key 1 1 10, \<lparr>data = ''reviews of user 1'', timestamp = 0\<rparr>),
      (userReviews_key 12 1 10, \<lparr>data = ''reviews of user 12'', timestamp = 0\<rparr>)] = [] \<and>
   fst (interactions_getCachedQuery 5
          (userReviews_key 12 1 10)
          (invalidateUserCache 1
            [(userReviews_key 1 1 10, \<lparr>data = ''reviews of user 1'', timestamp = 0\<rparr>),
             (userReviews_key 12 1 10, \<lparr>data = ''reviews of user 12'', timestamp = 0\<rparr>)]))
     = None"
  by code_simp




section \<open>The guard of the search routes: blank query text\<close>

lemma trim_Nil: "trim [] = []"
  by (simp add: trim_def)

text \<open>
  Claim C10. A query text that is empty or only white space after trimming makes both
  search routes answer 400 with \<open>success: false\<close> and the message
  \<open>Search query is required\<close> (as does a missing query text); a query text that is not
  empty after trimming passes the guard, and the handler goes on.
\<close>

theorem blank_query_rejected:
  "(trim q = [] \<longrightarrow>
      papers_search_guard (Text q) = Some query_required \<and>
      interactions_search_guard (Text q) = Some query_required) \<and>
   (trim q \<noteq> [] \<longrightarrow>
      papers_search_guard (Text q) = None \<and> interactions_search_guard (Text q) = None) \<and>
   papers_search_guard Missing = Some query_required \<and>
   interactions_search_guard Missing = Some query_required \<and>
   status query_required = 400 \<and> \<not> success query_required"
  by (auto simp: papers_search_guard_def interactions_search_guard_def query_required_def
      trim_Nil)

theorem blank_query_rejected_witness:
  "papers_search_guard (Text ''   '') = Some query_required \<and>
   interactions_search_guard (Text ''   '') = Some query_required \<and>
   papers_search_guard (Text '' neural networks '') = None \<and>
   interactions_search_guard (Text '' neural networks '') = None"
proof -
  have a: "trim ''   '' = []" by code_simp
  have b: "trim '' neural networks '' \<noteq> []" by code_simp
  show ?thesis
    using blank_query_rejected [of "''   ''"] blank_query_rejected [of "'' neural networks ''"] a b
    by simp
qed

section \<open>Ordering of the search result\<close>

lemma order_before_sort_key:
  "order_before clause a b \<longleftrightarrow> order_key clause a \<le> order_key clause b"
proof (induction clause)
  case Nil
  then show ?case by (simp add: order_key_def)
next
  case (Cons cd clause)
  obtain col dir where cd: "cd = (col, dir)" by (cases cd)
  show ?case using Cons cd by (cases dir) (auto simp: order_key_def)
qed

lemma sorted_wrt_order_before:
  "sorted_wrt (order_before clause) rows \<longleftrightarrow> sorted (map (order_key clause) rows)"
proof -
  have "order_before clause = (\<lambda>a b. order_key clause a \<le> order_key clause b)"
    by (intro ext) (rule order_before_sort_key)
  then show ?thesis by (simp add: sorted_map)
qed

lemma ordered_keys_determined:
  assumes "is_ordered_by clause rows result"
  shows "map (order_key clause) result = sort (map (order_key clause) rows)"
proof -
  have "mset (map (order_key clause) result) = mset (map (order_key clause) rows)"
    using assms by (simp add: is_ordered_by_def)
  moreover have "sorted (map (order_key clause) result)"
    using assms by (simp add: is_ordered_by_def sorted_wrt_order_before)
  ultimately have "sort (map (order_key clause) rows) = map (order_key clause) result"
    by (rule properties_for_sort)
  then show ?thesis by simp
qed

lemma sort_key_is_ordered: "is_ordered_by clause rows (sort_key (order_key clause) rows)"
  by (simp add: is_ordered_by_def sorted_wrt_order_before)

lemma Paper_ID_not_ordered: "By_Paper_ID \<notin> fst ` set (orderByClause sortBy)"
  by (simp add: orderByClause_def)

text \<open>
  Claim C6, amended. For every \<open>sortBy\<close>, any two orderings of the same rows that respect
  the \<open>ORDER BY\<close> clause agree on the sequence of the values of the columns of the clause,
  and are the same list when no two rows agree on all of these values; an ordering always
  exists. No clause names the record id, so rows that agree on every column of the clause
  have no fixed relative order.
\<close>

theorem ranking_determined_up_to_ties:
  "(is_ordered_by (orderByClause sortBy) rows result1 \<and>
    is_ordered_by (orderByClause sortBy) rows result2 \<longrightarrow>
      map (order_key (orderByClause sortBy)) result1 = map (order_key (orderByClause sortBy)) result2 \<and>
      (inj_on (order_key (orderByClause sortBy)) (set rows) \<longrightarrow> result1 = result2)) \<and>
   (\<exists>result. is_ordered_by (orderByClause sortBy) rows result) \<and>
   By_Paper_ID \<notin> fst ` set (orderByClause sortBy)"
proof (intro conjI impI)
  assume a: "is_ordered_by (orderByClause sortBy) rows result1 \<and>
    is_ordered_by (orderByClause sortBy) rows result2"
  then show k: "map (order_key (orderByClause sortBy)) result1 =
      map (order_key (orderByClause sortBy)) result2"
    using ordered_keys_determined [of "orderByClause sortBy" rows result1]
      ordered_keys_determined [of "orderByClause sortBy" rows result2]
    by simp
  assume inj: "inj_on (order_key (orderByClause sortBy)) (set rows)"
  have "set result1 = set rows" "set result2 = set rows"
    using a by (auto simp: is_ordered_by_def dest: mset_eq_setD)
  then have "inj_on (order_key (orderByClause sortBy)) (set result1 \<union> set result2)"
    using inj by simp
  then show "result1 = result2" using k by (simp add: inj_on_map_eq_map)
next
  show "\<exists>result. is_ordered_by (orderByClause sortBy) rows result"
    using sort_key_is_ordered by blast
next
  show "By_Paper_ID \<notin> fst ` set (orderByClause sortBy)" by (rule Paper_ID_not_ordered)
qed

lemma scores_eq:
  "relevanceScore q (p\<lparr>Paper_ID := i\<rparr>) = relevanceScore q p"
  by (simp add: relevanceScore_def relevanceScoreParts_def keywords_like_def authors_like_def)

text \<open>
  Claim C6 says that ties beyond the listed columns are broken by a further key such as
  the record id, so that the ordered output is unique. Two papers that differ in their id
  only tie on every column of the clause, and both arrangements respect it.
\<close>

theorem tied_rows_unordered_counterexample:
  "is_ordered_by (orderByClause ''relevance'')
     (map (result_row_of ''neural networks'') [exact_title_paper, exact_title_paper\<lparr>Paper_ID := 2\<rparr>])
     (map (result_row_of ''neural networks'') [exact_title_paper, exact_title_paper\<lparr>Paper_ID := 2\<rparr>]) \<and>
   is_ordered_by (orderByClause ''relevance'')
     (map (result_row_of ''neural networks'') [exact_title_paper, exact_title_paper\<lparr>Paper_ID := 2\<rparr>])
     (map (result_row_of ''neural networks'') [exact_title_paper\<lparr>Paper_ID := 2\<rparr>, exact_title_paper]) \<and>
   map (result_row_of ''neural networks'') [exact_title_paper, exact_title_paper\<lparr>Paper_ID := 2\<rparr>] \<noteq>
   map (result_row_of ''neural networks'') [exact_title_paper\<lparr>Paper_ID := 2\<rparr>, exact_title_paper]"
proof -
  have "exact_title_paper\<lparr>Paper_ID := 2\<rparr> \<noteq> exact_title_paper"
    by (simp add: exact_title_paper_def blank_paper_def)
  then have "result_row_of ''neural networks'' (exact_title_paper\<lparr>Paper_ID := 2\<rparr>) \<noteq>
             result_row_of ''neural networks'' exact_title_paper"
    by (simp add: result_row_of_def)
  then show ?thesis
    by (auto simp: is_ordered_by_def orderByClause_def result_row_of_def scores_eq)
qed

section \<open>The relevance score\<close>

lemma sql_like_percent: "sql_like s ''%''"
  by (induction s) auto

lemma sql_like_prefix:
  "wildcard_free q \<Longrightarrow>
   sql_like s (q @ ''%'') \<longleftrightarrow> prefix (map lower_char q) (map lower_char s)"
proof (induction q arbitrary: s)
  case Nil
  then show ?case using sql_like_percent by simp
next
  case (Cons c q)
  then have c: "c \<noteq> CHR ''%''" "c \<noteq> CHR ''_''" and q: "wildcard_free q"
    by (auto simp: wildcard_free_def)
  show ?case
  proof (cases s)
    case Nil
    then show ?thesis using c by simp
  next
    case (Cons d s')
    then show ?thesis using c Cons.IH [OF q, of s'] by auto
  qed
qed

lemma sql_like_percent_Cons:
  "sql_like s (CHR ''%'' # pat) \<longleftrightarrow> (\<exists>t. suffix t s \<and> sql_like t pat)"
proof (induction s)
  case Nil
  then show ?case by simp
next
  case (Cons d s)
  have "sql_like (d # s) (CHR ''%'' # pat) \<longleftrightarrow>
          sql_like (d # s) pat \<or> sql_like s (CHR ''%'' # pat)"
    by simp
  also have "\<dots> \<longleftrightarrow> sql_like (d # s) pat \<or> (\<exists>t. suffix t s \<and> sql_like t pat)"
    using Cons by simp
  also have "\<dots> \<longleftrightarrow> (\<exists>t. suffix t (d # s) \<and> sql_like t pat)"
    by (auto simp: suffix_Cons)
  finally show ?case .
qed

lemma suffix_map_iff:
  "suffix u (map f s) \<longleftrightarrow> (\<exists>t. suffix t s \<and> u = map f t)"
  by (auto simp: suffix_def map_eq_append_conv append_eq_map_conv)

lemma sql_like_contains:
  assumes "wildcard_free q"
  shows "sql_like s (''%'' @ q @ ''%'') \<longleftrightarrow> ci_substring q s"
proof -
  have "sql_like s (''%'' @ q @ ''%'') \<longleftrightarrow>
          (\<exists>t. suffix t s \<and> prefix (map lower_char q) (map lower_char t))"
    using sql_like_percent_Cons [of s "q @ ''%''"] sql_like_prefix [OF assms] by simp
  also have "\<dots> \<longleftrightarrow> (\<exists>u. suffix u (map lower_char s) \<and> prefix (map lower_char q) u)"
    by (auto simp: suffix_map_iff)
  finally show ?thesis by (simp add: ci_substring_def sublist_altdef')
qed

lemma split_ws_from_chars:
  "t \<in> set (split_ws_from piece b s) \<Longrightarrow> set t \<subseteq> set piece \<union> set s"
  by (induction piece b s rule: split_ws_from.induct) (auto split: if_splits)

lemma searchTerms_wildcard_free:
  assumes "wildcard_free (trim query)" and "t \<in> set (searchTerms query)"
  shows "wildcard_free t"
proof -
  have "set t \<subseteq> set (trim query)"
    using assms(2) split_ws_from_chars [of t "[]" False "trim query"]
    by (simp add: searchTerms_def split_whitespace_def)
  then show ?thesis using assms(1) by (auto simp: wildcard_free_def)
qed

lemma sum_list_case_when:
  "sum_list (map (\<lambda>x. case_when (P x) w) xs) = w * int (length (filter P xs))"
  by (induction xs) (auto simp: case_when_def algebra_simps)

lemma searchPattern_like:
  "wildcard_free (trim query) \<Longrightarrow>
   sql_like s (searchPattern query) \<longleftrightarrow> ci_substring (trim query) s"
  using sql_like_contains [of "trim query" s] by (simp add: searchPattern_def)

lemma term_scores:
  assumes "wildcard_free (trim query)"
  shows "sum_list (map (\<lambda>term. case_when (sql_like s (CHR ''%'' # term @ ''%'')) 100)
           (searchTerms query)) =
         100 * int (length (filter (\<lambda>term. ci_substring term s) (searchTerms query)))"
proof -
  have "map (\<lambda>term. case_when (sql_like s (CHR ''%'' # term @ ''%'')) 100) (searchTerms query) =
        map (\<lambda>term. case_when (ci_substring term s) 100) (searchTerms query)"
  proof (rule map_cong [OF refl])
    fix t assume "t \<in> set (searchTerms query)"
    then have "wildcard_free t" using assms searchTerms_wildcard_free by blast
    then show "case_when (sql_like s (CHR ''%'' # t @ ''%'')) 100 =
               case_when (ci_substring t s) 100"
      using sql_like_contains [of t s] by simp
  qed
  then show ?thesis by (simp only: sum_list_case_when)
qed

lemma relevanceScore_weighted:
  assumes "wildcard_free (trim query)"
  shows "relevanceScore query p = weighted_signal_score query p"
proof -
  note like = searchPattern_like [OF assms]
  note terms = term_scores [OF assms, of "Title p"]
  have field: "sql_like_nullable (Field_Name p) (searchPattern query) \<longleftrightarrow>
      (case Field_Name p of None \<Rightarrow> False | Some f \<Rightarrow> ci_substring (trim query) f)"
    by (simp add: sql_like_nullable_def like split: option.splits)
  show ?thesis
    unfolding relevanceScore_def relevanceScoreParts_def weighted_signal_score_def
    by (simp add: terms field like keywords_like_def authors_like_def del: sql_like.simps)
      (simp add: case_when_def)
qed

lemma score_exact_title: "relevanceScore ''neural networks'' exact_title_paper = 1200"
  by code_simp

lemma score_abstract_phrase: "relevanceScore ''neural networks'' abstract_phrase_paper = 200"
  by code_simp

lemma score_abstract_word: "relevanceScore ''neural networks'' abstract_word_paper = 0"
  by code_simp

text \<open>
  Claim C7 has a paper with the word \<open>neural\<close> only in its abstract score 200 for the query
  \<open>neural networks\<close> and appear in the result. The abstract signal and the search condition
  both test the whole query text: that paper scores 0 and is not selected.
\<close>

theorem abstract_word_only_counterexample:
  "relevanceScore ''neural networks'' abstract_word_paper = 0 \<and>
   \<not> base_search_condition ''neural networks'' abstract_word_paper \<and>
   SearchResults ''neural networks'' None None None 0 [exact_title_paper, abstract_word_paper] =
     [result_row_of ''neural networks'' exact_title_paper]"
proof -
  have a: "\<not> base_search_condition ''neural networks'' abstract_word_paper" by code_simp
  have b: "base_search_condition ''neural networks'' exact_title_paper" by code_simp
  show ?thesis
    using a b score_abstract_word
    by (simp add: SearchResults_def whereConditions_def)
qed

text \<open>
  Claim C7, amended. For a query text without \<open>LIKE\<close> wildcard characters the relevance
  score is the sum of the signals of the specification: 1000 for the trimmed query text
  in the title, 100 for each white-space-separated term in the title, 500 for the query
  text in a keyword string, 300 in an author's first or last name, 200 in the abstract and
  150 in the field name, each match a case-insensitive substring match. For the query
  \<open>neural networks\<close>, the paper titled \<open>Neural Networks\<close> scores 1000 + 100 + 100, a paper
  whose abstract contains the whole query text scores 200, both are selected, and the first
  stands strictly before the second under the relevance ordering.
\<close>

theorem relevance_score_signals:
  "(wildcard_free (trim query) \<longrightarrow> relevanceScore query p = weighted_signal_score query p) \<and>
   relevanceScore ''neural networks'' exact_title_paper = 1000 + 100 + 100 \<and>
   relevanceScore ''neural networks'' abstract_phrase_paper = 200 \<and>
   SearchResults ''neural networks'' None None None 0 [abstract_phrase_paper, exact_title_paper] =
     [result_row_of ''neural networks'' abstract_phrase_paper,
      result_row_of ''neural networks'' exact_title_paper] \<and>
   order_before (orderByClause ''relevance'')
     (result_row_of ''neural networks'' exact_title_paper)
     (result_row_of ''neural networks'' abstract_phrase_paper) \<and>
   \<not> order_before (orderByClause ''relevance'')
     (result_row_of ''neural networks'' abstract_phrase_paper)
     (result_row_of ''neural networks'' exact_title_paper)"
proof -
  have a: "base_search_condition ''neural networks'' abstract_phrase_paper" by code_simp
  have b: "base_search_condition ''neural networks'' exact_title_paper" by code_simp
  show ?thesis
    using a b score_exact_title score_abstract_phrase relevanceScore_weighted [of query p]
    by (simp add: SearchResults_def whereConditions_def orderByClause_def result_row_of_def)
qed

theorem relevance_score_signals_witness:
  "wildcard_free (trim ''neural networks'') \<and>
   weighted_signal_score ''neural networks'' exact_title_paper = 1200"
proof -
  have w: "wildcard_free (trim ''neural networks'')" by code_simp
  show ?thesis
    using w relevance_score_signals [of "''neural networks''" exact_title_paper] by simp
qed




theorem ranking_determined_up_to_ties_witness:
  "sort_key (order_key (orderByClause ''relevance''))
     [result_row_of ''neural networks'' abstract_phrase_paper,
      result_row_of ''neural networks'' exact_title_paper] =
     [result_row_of ''neural networks'' exact_title_paper,
      result_row_of ''neural networks'' abstract_phrase_paper]"
proof -
  let ?r1 = "result_row_of ''neural networks'' exact_title_paper"
  let ?r3 = "result_row_of ''neural networks'' abstract_phrase_paper"
  let ?cl = "orderByClause ''relevance''"
  have s: "Relevance_Score ?r1 = 1200" "Relevance_Score ?r3 = 200"
    using score_exact_title score_abstract_phrase by (simp_all add: result_row_of_def)
  have a: "is_ordered_by ?cl [?r3, ?r1] [?r1, ?r3]"
    using s by (simp add: is_ordered_by_def orderByClause_def)
  have b: "is_ordered_by ?cl [?r3, ?r1] (sort_key (order_key ?cl) [?r3, ?r1])"
    by (rule sort_key_is_ordered)
  have "order_key ?cl ?r1 \<noteq> order_key ?cl ?r3"
    using s by (simp add: order_key_def orderByClause_def)
  then have c: "inj_on (order_key ?cl) (set [?r3, ?r1])"
    by (auto simp: inj_on_def)
  note imp = ranking_determined_up_to_ties [of "''relevance''" "[?r3, ?r1]"
        "sort_key (order_key ?cl) [?r3, ?r1]" "[?r1, ?r3]", THEN conjunct1]
  show ?thesis
    by (rule mp [OF mp [OF imp conjI [OF b a], THEN conjunct2] c])
qed

text \<open>
  A query text with a wildcard character is not matched as a substring: \<open>a_c\<close> matches the
  title \<open>abc\<close>.
\<close>

lemma like_wildcard_in_query:
  "relevanceScore ''a_c'' (blank_paper\<lparr>Title := ''abc''\<rparr>) = 1100 \<and>
   \<not> ci_substring ''a_c'' ''abc''"
  by code_simp

end
